theory Spec2Isabelle
  imports Main "HOL-Library.Multiset"
begin

section \<open>The persistence schema (shared/schema.ts)\<close>

text \<open>
  The storage layer talks to a PostgreSQL database through the drizzle query builder.
  A table is the list of its rows, a nullable column is an \<open>option\<close>, and the
  integrity constraints the schema declares (primary key, \<open>unique\<close>,
  \<open>references\<close>) are checked by the statements that write. Conventions:
  \<^item> \<open>uuid\<close> keys come from \<open>gen_random_uuid()\<close>; the model draws a key that is
    not in the table (\<open>fresh_id\<close>). A row holds the key's value; a key that a caller
    passes is a string, which the database parses (\<open>string_to_uuid\<close>);
  \<^item> \<open>new Date()\<close> and \<open>defaultNow()\<close> read a clock; every operation that reads
    it takes the current time as its first argument;
  \<^item> \<open>decimal\<close> columns are strings in drizzle's row types, \<open>jsonb\<close> documents are
    kept as their text.
\<close>

type_synonym uuid = nat

type_synonym user_id = string

type_synonym timestamp = nat

type_synonym decimal = string

type_synonym jsonb = string

record User =
  u_id :: user_id
  u_username :: "string option"
  u_password :: "string option"
  u_email :: "string option"
  u_firstName :: "string option"
  u_lastName :: "string option"
  u_profileImageUrl :: "string option"
  u_stripeCustomerId :: "string option"
  u_stripeSubscriptionId :: "string option"
  u_isAdmin :: "bool option"
  u_adminRole :: "string option"
  u_createdAt :: "timestamp option"
  u_updatedAt :: "timestamp option"

record AdminPermission =
  ap_id :: uuid
  ap_userId :: "user_id option"
  ap_permission :: string
  ap_createdAt :: "timestamp option"

record Category =
  c_id :: uuid
  c_name :: string
  c_slug :: string
  c_description :: "string option"
  c_createdAt :: "timestamp option"

record Brand =
  b_id :: uuid
  b_name :: string
  b_description :: "string option"
  b_createdAt :: "timestamp option"

record Product =
  p_id :: uuid
  p_name :: string
  p_slug :: string
  p_description :: "string option"
  p_shortDescription :: "string option"
  p_price :: decimal
  p_originalPrice :: "decimal option"
  p_dosage :: "string option"
  p_categoryId :: "uuid option"
  p_brandId :: "uuid option"
  p_imageUrl :: "string option"
  p_stockQuantity :: "int option"
  p_requiresPrescription :: "bool option"
  p_isActive :: "bool option"
  p_rating :: "decimal option"
  p_reviewCount :: "int option"
  p_createdAt :: "timestamp option"
  p_updatedAt :: "timestamp option"

record CartItem =
  ci_id :: uuid
  ci_userId :: user_id
  ci_productId :: uuid
  ci_quantity :: int
  ci_createdAt :: "timestamp option"
  ci_updatedAt :: "timestamp option"

record Order =
  o_id :: uuid
  o_userId :: user_id
  o_orderNumber :: string
  o_status :: string
  o_totalAmount :: decimal
  o_shippingAddress :: "jsonb option"
  o_billingAddress :: "jsonb option"
  o_paymentStatus :: "string option"
  o_stripePaymentIntentId :: "string option"
  o_createdAt :: "timestamp option"
  o_updatedAt :: "timestamp option"

record OrderItem =
  oi_id :: uuid
  oi_orderId :: uuid
  oi_productId :: uuid
  oi_quantity :: int
  oi_price :: decimal
  oi_createdAt :: "timestamp option"

text \<open>The database: one list of rows per table the storage operations below touch.\<close>

record DB =
  users :: "User list"
  adminPermissions :: "AdminPermission list"
  categories :: "Category list"
  brands :: "Brand list"
  products :: "Product list"
  cartItems :: "CartItem list"
  orders :: "Order list"
  orderItems :: "OrderItem list"

text \<open>
  Errors are values. A statement that violates a constraint raises, and the storage layer
  never catches: the error is returned together with the database as it stands at that
  moment, so that what an aborted operation has already written stays visible.
\<close>

datatype db_error =
    UniqueViolation | ForeignKeyViolation | EmptyValues
  | InvalidTextRepresentation | NumericValueOutOfRange | StringDataRightTruncation
  | WrongObjectType

type_synonym 'a result = "(db_error + 'a) \<times> DB"

definition fresh_id :: "uuid list \<Rightarrow> uuid" where
  "fresh_id ids = Suc (fold max ids 0)"

text \<open>\<open>const [x] = await ...\<close>: the first row of a result, \<open>undefined\<close> when there is none.\<close>

fun first_row :: "'a list \<Rightarrow> 'a option" where
  "first_row [] = None"
| "first_row (x # xs) = Some x"

section \<open>Column types\<close>




text \<open>
  \<open>integer\<close> is a 32-bit column. A number reaches the database as its decimal text;
  from \<open>1e21\<close> on JavaScript prints a number with an exponent, which is no integer text.
\<close>

definition int4_ok :: "int \<Rightarrow> bool" where
  "int4_ok n = (- 2147483648 \<le> n \<and> n \<le> 2147483647)"

definition int4_in :: "int \<Rightarrow> db_error + int" where
  "int4_in n =
     (if int4_ok n then Inr n
      else if \<bar>n\<bar> < 1000000000000000000000 then Inl NumericValueOutOfRange
      else Inl InvalidTextRepresentation)"


text \<open>
  \<open>uuid\<close>: eight groups of four hexadecimal digits, in either case, with an optional
  hyphen after each group but the last and optional braces around the whole. The value of
  a key is the number its thirty-two digits spell.
\<close>

definition hex_digit :: "char \<Rightarrow> nat option" where
  "hex_digit c =
     (let n = (of_char c :: nat)
      in if 48 \<le> n \<and> n \<le> 57 then Some (n - 48)
         else if 97 \<le> n \<and> n \<le> 102 then Some (n - 87)
         else if 65 \<le> n \<and> n \<le> 70 then Some (n - 55)
         else None)"

fun read_group :: "string \<Rightarrow> (nat \<times> string) option" where
  "read_group (c1 # c2 # c3 # c4 # src) =
     (case (hex_digit c1, hex_digit c2, hex_digit c3, hex_digit c4) of
        (Some d1, Some d2, Some d3, Some d4) \<Rightarrow> Some (d1 * 4096 + d2 * 256 + d3 * 16 + d4, src)
      | _ \<Rightarrow> None)"
| "read_group src = None"

fun skip_hyphen :: "string \<Rightarrow> string" where
  "skip_hyphen (c # src) = (if c = CHR ''-'' then src else c # src)"
| "skip_hyphen [] = []"

definition next_group :: "bool \<Rightarrow> (nat \<times> string) option \<Rightarrow> (nat \<times> string) option" where
  "next_group final st =
     (case st of
        None \<Rightarrow> None
      | Some (acc, src) \<Rightarrow>
          (case read_group src of
             None \<Rightarrow> None
           | Some (v, rest) \<Rightarrow>
               Some (acc * 65536 + v, if final then rest else skip_hyphen rest)))"

definition string_to_uuid :: "string \<Rightarrow> uuid option" where
  "string_to_uuid s =
     (let braces = (s \<noteq> [] \<and> hd s = CHR ''{'');
          src = (if braces then tl s else s)
      in case fold next_group [False, False, False, False, False, False, False, True]
                (Some (0, src)) of
           None \<Rightarrow> None
         | Some (v, rest) \<Rightarrow> if rest = (if braces then ''}'' else []) then Some v else None)"



section \<open>Query-builder primitives\<close>

text \<open>
  \<open>db.update(t).set(v).where(c).returning()\<close>: every row that satisfies \<open>c\<close> is
  rewritten; the statement returns the rewritten rows.
\<close>

definition update_where :: "('r \<Rightarrow> bool) \<Rightarrow> ('r \<Rightarrow> 'r) \<Rightarrow> 'r list \<Rightarrow> 'r list \<times> 'r list" where
  "update_where cond f rows =
     (map (\<lambda>r. if cond r then f r else r) rows, map f (filter cond rows))"

text \<open>
  A key of the object given to \<open>set\<close> whose value is \<open>undefined\<close> is left out of the
  \<open>UPDATE\<close> by drizzle (only \<open>null\<close> writes \<open>NULL\<close>): \<open>None\<close> keeps the stored value.
\<close>

definition set_col :: "'a option \<Rightarrow> 'a \<Rightarrow> 'a" where
  "set_col v old = (case v of None \<Rightarrow> old | Some x \<Rightarrow> x)"

text \<open>
  \<open>a.leftJoin(b, on)\<close>: every left row paired with each right row that matches, or once
  with \<open>null\<close> when none does.
\<close>

definition leftJoin :: "'l list \<Rightarrow> 'r list \<Rightarrow> ('l \<Rightarrow> 'r \<Rightarrow> bool) \<Rightarrow> ('l \<times> 'r option) list" where
  "leftJoin ls rs on =
     concat (map (\<lambda>l. case filter (on l) rs of
                          [] \<Rightarrow> [(l, None)]
                        | ms \<Rightarrow> map (\<lambda>r. (l, Some r)) ms) ls)"

text \<open>
  \<open>orderBy(desc(col))\<close> on a nullable timestamp: PostgreSQL puts \<open>NULL\<close> first in a
  descending order. The order among equal keys is the database's choice; the model keeps
  the table's order (a stable insertion sort).
\<close>

fun newer_eq :: "timestamp option \<Rightarrow> timestamp option \<Rightarrow> bool" where
  "newer_eq None b = True"
| "newer_eq (Some x) None = False"
| "newer_eq (Some x) (Some y) = (y \<le> x)"

primrec insert_desc :: "('a \<Rightarrow> timestamp option) \<Rightarrow> 'a \<Rightarrow> 'a list \<Rightarrow> 'a list" where
  "insert_desc k x [] = [x]"
| "insert_desc k x (y # ys) =
     (if newer_eq (k x) (k y) then x # y # ys else y # insert_desc k x ys)"

definition orderBy_desc :: "('a \<Rightarrow> timestamp option) \<Rightarrow> 'a list \<Rightarrow> 'a list" where
  "orderBy_desc k xs = foldr (insert_desc k) xs []"

section \<open>Admin permissions (storage.ts)\<close>




section \<open>Users (storage.ts)\<close>

text \<open>
  \<open>setUserAdmin(id, isAdmin, role?)\<close> passes \<open>{ isAdmin, adminRole: role, updatedAt }\<close>
  to \<open>set\<close>; \<open>role\<close> is \<open>undefined\<close> when the caller gives none.
\<close>

definition setUserAdmin :: "timestamp \<Rightarrow> user_id \<Rightarrow> bool \<Rightarrow> string option \<Rightarrow> DB \<Rightarrow> User option result" where
  "setUserAdmin now ident isAdmin role db =
     (let (rows, returning) =
            update_where (\<lambda>u. u_id u = ident)
              (\<lambda>u. u\<lparr> u_isAdmin := Some isAdmin,
                       u_adminRole := set_col (map_option Some role) (u_adminRole u),
                       u_updatedAt := Some now \<rparr>)
              (users db)
      in (Inr (first_row returning), db\<lparr>users := rows\<rparr>))"

section \<open>Cart (storage.ts)\<close>

definition addToCart :: "timestamp \<Rightarrow> user_id \<Rightarrow> string \<Rightarrow> int \<Rightarrow> DB \<Rightarrow> CartItem option result" where
  "addToCart now userId productId quantity db =
     (case string_to_uuid productId of
        None \<Rightarrow> (Inl InvalidTextRepresentation, db)
      | Some pid \<Rightarrow>
          (case first_row (filter (\<lambda>c. ci_userId c = userId \<and> ci_productId c = pid)
                             (cartItems db)) of
             Some existingItem \<Rightarrow>
               (case int4_in (ci_quantity existingItem + quantity) of
                  Inl e \<Rightarrow> (Inl e, db)
                | Inr newQuantity \<Rightarrow>
                    let (rows, returning) =
                          update_where (\<lambda>c. ci_id c = ci_id existingItem)
                            (\<lambda>c. c\<lparr> ci_quantity := newQuantity, ci_updatedAt := Some now \<rparr>)
                            (cartItems db)
                    in (Inr (first_row returning), db\<lparr>cartItems := rows\<rparr>))
           | None \<Rightarrow>
               (case int4_in quantity of
                  Inl e \<Rightarrow> (Inl e, db)
                | Inr q \<Rightarrow>
                    if userId \<notin> set (map u_id (users db)) \<or> pid \<notin> set (map p_id (products db))
                    then (Inl ForeignKeyViolation, db)
                    else
                      let newItem =
                            \<lparr> ci_id = fresh_id (map ci_id (cartItems db)),
                              ci_userId = userId,
                              ci_productId = pid,
                              ci_quantity = q,
                              ci_createdAt = Some now,
                              ci_updatedAt = Some now \<rparr>
                      in (Inr (Some newItem), db\<lparr>cartItems := cartItems db @ [newItem]\<rparr>))))"

definition updateCartItem :: "timestamp \<Rightarrow> user_id \<Rightarrow> string \<Rightarrow> int \<Rightarrow> DB \<Rightarrow> CartItem option result" where
  "updateCartItem now userId productId quantity db =
     (case int4_in quantity of
        Inl e \<Rightarrow> (Inl e, db)
      | Inr q \<Rightarrow>
          (case string_to_uuid productId of
             None \<Rightarrow> (Inl InvalidTextRepresentation, db)
           | Some pid \<Rightarrow>
               let (rows, returning) =
                     update_where (\<lambda>c. ci_userId c = userId \<and> ci_productId c = pid)
                       (\<lambda>c. c\<lparr> ci_quantity := q, ci_updatedAt := Some now \<rparr>)
                       (cartItems db)
               in (Inr (first_row returning), db\<lparr>cartItems := rows\<rparr>)))"

text \<open>The rows of the cart table for one (user, product) pair.\<close>

definition cart_rows :: "user_id \<Rightarrow> uuid \<Rightarrow> DB \<Rightarrow> CartItem list" where
  "cart_rows userId productId db =
     filter (\<lambda>c. ci_userId c = userId \<and> ci_productId c = productId) (cartItems db)"

section \<open>Products (storage.ts)\<close>

record ProductFilters =
  f_categoryId :: "string option"
  f_brandId :: "string option"
  f_search :: "string option"
  f_minPrice :: "int option"
  f_maxPrice :: "int option"
  f_inStock :: "bool option"
  f_limit :: "int option"
  f_offset :: "int option"

text \<open>\<open>{ ...row.products, category, brand }\<close>: the product row with its two relations.\<close>

record ProductWithRelations =
  pr_product :: Product
  pr_category :: "Category option"
  pr_brand :: "Brand option"

definition getProducts :: "ProductFilters option \<Rightarrow> DB \<Rightarrow> ProductWithRelations list" where
  "getProducts filters db =
     (let results =
            orderBy_desc (\<lambda>((p, c), b). p_createdAt p)
              (filter (\<lambda>((p, c), b). p_isActive p = Some True)
                 (leftJoin
                    (leftJoin (products db) (categories db)
                       (\<lambda>p c. p_categoryId p = Some (c_id c)))
                    (brands db)
                    (\<lambda>(p, c) b. p_brandId p = Some (b_id b))))
      in map (\<lambda>((p, c), b). \<lparr> pr_product = p, pr_category = c, pr_brand = b \<rparr>) results)"

text \<open>
  What the enrichment of one product is: the product, the category its \<open>categoryId\<close>
  names and the brand its \<open>brandId\<close> names, each absent when there is none.
\<close>

definition with_relations :: "DB \<Rightarrow> Product \<Rightarrow> ProductWithRelations" where
  "with_relations db p =
     \<lparr> pr_product = p,
       pr_category = find (\<lambda>c. p_categoryId p = Some (c_id c)) (categories db),
       pr_brand = find (\<lambda>b. p_brandId p = Some (b_id b)) (brands db) \<rparr>"








section \<open>Orders (storage.ts)\<close>














text \<open>
  The rows of \<open>orders LEFT JOIN order_items LEFT JOIN products\<close>, and an order with its
  items, each item with its product.
\<close>

type_synonym order_row = "(Order \<times> OrderItem option) \<times> Product option"

record OrderWithItems =
  owi_order :: Order
  owi_orderItems :: "(OrderItem \<times> Product) list"

definition order_join :: "DB \<Rightarrow> order_row list" where
  "order_join db =
     leftJoin
       (leftJoin (orders db) (orderItems db) (\<lambda>ord i. o_id ord = oi_orderId i))
       (products db)
       (\<lambda>(ord, i) p. case i of None \<Rightarrow> False | Some item \<Rightarrow> oi_productId item = p_id p)"

text \<open>
  The grouping loop of \<open>getOrders\<close>. \<open>groupedOrders\<close> is an object keyed by order id;
  the keys are uuid strings, so \<open>Object.values\<close> lists the entries in the order they
  were first written: an association list that appends new keys.
\<close>

definition group_step :: "(uuid \<times> OrderWithItems) list \<Rightarrow> order_row \<Rightarrow> (uuid \<times> OrderWithItems) list" where
  "group_step groupedOrders row =
     (let orderId = o_id (fst (fst row));
          g = (if map_of groupedOrders orderId = None
               then groupedOrders @ [(orderId, \<lparr> owi_order = fst (fst row), owi_orderItems = [] \<rparr>)]
               else groupedOrders)
      in case (snd (fst row), snd row) of
           (Some orderItem, Some product) \<Rightarrow>
             map (\<lambda>kv. if fst kv = orderId
                        then (fst kv, (snd kv)\<lparr>owi_orderItems :=
                                                  owi_orderItems (snd kv) @ [(orderItem, product)]\<rparr>)
                        else kv) g
         | _ \<Rightarrow> g)"

definition getOrders :: "user_id \<Rightarrow> DB \<Rightarrow> OrderWithItems list" where
  "getOrders userId db =
     (let ordersWithItems =
            orderBy_desc (\<lambda>row. o_createdAt (fst (fst row)))
              (filter (\<lambda>row. o_userId (fst (fst row)) = userId) (order_join db));
          groupedOrders = foldl group_step [] ordersWithItems
      in map snd groupedOrders)"

definition paired :: "order_row \<Rightarrow> (OrderItem \<times> Product) list" where
  "paired row =
     (case (snd (fst row), snd row) of
        (Some orderItem, Some product) \<Rightarrow> [(orderItem, product)]
      | _ \<Rightarrow> [])"

definition getOrder :: "uuid \<Rightarrow> DB \<Rightarrow> OrderWithItems option" where
  "getOrder ident db =
     (let orderWithItems = filter (\<lambda>row. o_id (fst (fst row)) = ident) (order_join db)
      in case orderWithItems of
           [] \<Rightarrow> None
         | row0 # _ \<Rightarrow>
             Some \<lparr> owi_order = fst (fst row0),
                    owi_orderItems = concat (map paired orderWithItems) \<rparr>)"

section \<open>Seeding (seed-authentic-catalog.ts)\<close>

record InsertCategory =
  ic_name :: string
  ic_slug :: string
  ic_description :: "string option"

definition createCategory :: "timestamp \<Rightarrow> InsertCategory \<Rightarrow> DB \<Rightarrow> Category result" where
  "createCategory now category db =
     (if ic_slug category \<in> set (map c_slug (categories db)) then (Inl UniqueViolation, db)
      else
        let newCategory =
              \<lparr> c_id = fresh_id (map c_id (categories db)),
                c_name = ic_name category,
                c_slug = ic_slug category,
                c_description = ic_description category,
                c_createdAt = Some now \<rparr>
        in (Inr newCategory, db\<lparr>categories := categories db @ [newCategory]\<rparr>))"

definition categoriesData :: "InsertCategory list" where
  "categoriesData =
     map (\<lambda>(n, s, d). \<lparr> ic_name = n, ic_slug = s, ic_description = Some d \<rparr>)
     [ (''Vitamins & Multivitamins'', ''vitamins-multivitamins'',
        ''Essential vitamins and multivitamin supplements for daily health''),
       (''Probiotics & Digestive Health'', ''probiotics-digestive-health'',
        ''Probiotic supplements and digestive health products''),
       (''Dietary Supplements'', ''dietary-supplements'',
        ''General dietary and nutritional supplements''),
       (''Joint, Bone & Muscle Support'', ''joint-bone-muscle-support'',
        ''Supplements for joint, bone and muscle health''),
       (''Hair, Skin & Nails'', ''hair-skin-nails'',
        ''Beauty supplements for hair, skin and nail health''),
       (''Pain Relief'', ''pain-relief'', ''Over-the-counter pain relief medications''),
       (''Cold, Cough & Allergy'', ''cold-cough-allergy'',
        ''Cold, cough and allergy relief medications''),
       (''Urinary Health & Cranberry'', ''urinary-health-cranberry'',
        ''Urinary tract health and cranberry supplements''),
       (''Skin Care & Acne'', ''skin-care-acne'',
        ''Topical skin care and acne treatment products''),
       (''Women's Health & Feminine Care'', ''womens-health-feminine-care'',
        ''Women's health and feminine care products''),
       (''First Aid & Wound Care'', ''first-aid-wound-care'',
        ''First aid supplies and wound care products''),
       (''Digestive & Antacid'', ''digestive-antacid'',
        ''Digestive aids and antacid medications''),
       (''Heart Health & CoQ10'', ''heart-health-coq10'',
        ''Heart health supplements including CoQ10''),
       (''Oral Care'', ''oral-care'', ''Oral and dental care products''),
       (''Minerals & Trace Elements'', ''minerals-trace-elements'',
        ''Important minerals and trace elements for optimal body function''),
       (''Herbal & Natural Supplements'', ''herbal-natural-supplements'',
        ''Natural herbal supplements and botanical extracts''),
       (''General Health'', ''general-health'', ''General health and wellness products'') ]"

text \<open>
  The loop \<open>for (const categoryData of categoriesData) categories[slug] = await
  storage.createCategory(categoryData)\<close>: an error of \<open>createCategory\<close> leaves the loop
  and the function.
\<close>

fun seed_categories :: "timestamp \<Rightarrow> InsertCategory list \<Rightarrow> (string \<rightharpoonup> Category) \<Rightarrow> DB \<Rightarrow> (string \<rightharpoonup> Category) result" where
  "seed_categories now [] cats db = (Inr cats, db)"
| "seed_categories now (categoryData # rest) cats db =
     (case createCategory now categoryData db of
        (Inl e, db') \<Rightarrow> (Inl e, db')
      | (Inr c, db') \<Rightarrow> seed_categories now rest (cats(ic_slug categoryData \<mapsto> c)) db')"

text \<open>
  \<open>seedAuthenticCatalog\<close> runs the category loop first and then creates the brands and the
  products of the catalog file. Those later phases write no category; they are the
  parameter \<open>brands_and_products\<close>, which receives the categories created and the database.
\<close>

definition seedAuthenticCatalog :: "timestamp \<Rightarrow> ((string \<rightharpoonup> Category) \<Rightarrow> DB \<Rightarrow> 'a result) \<Rightarrow> DB \<Rightarrow> 'a result" where
  "seedAuthenticCatalog now brands_and_products db =
     (case seed_categories now categoriesData Map.empty db of
        (Inl e, db') \<Rightarrow> (Inl e, db')
      | (Inr cats, db') \<Rightarrow> brands_and_products cats db')"

text \<open>
  The later phases on an empty catalog file: no brand, no product, and the summary
  \<open>{ categories, brands, products }\<close> of the counts.
\<close>

definition empty_catalog :: "(string \<rightharpoonup> Category) \<Rightarrow> DB \<Rightarrow> (nat \<times> nat \<times> nat) result" where
  "empty_catalog cats db = (Inr (length (filter (\<lambda>s. cats s \<noteq> None) (map ic_slug categoriesData)), 0, 0), db)"

section \<open>A small shop\<close>

text \<open>Concrete rows and databases on which the theorems below are exercised.\<close>

definition alice :: User where
  "alice = \<lparr> u_id = ''alice'', u_username = Some ''alice'', u_password = Some ''hash'',
              u_email = Some ''a@x.com'', u_firstName = None, u_lastName = None,
              u_profileImageUrl = None, u_stripeCustomerId = None,
              u_stripeSubscriptionId = None, u_isAdmin = Some True,
              u_adminRole = Some ''super_admin'', u_createdAt = Some 1,
              u_updatedAt = Some 1 \<rparr>"

definition vitamins :: Category where
  "vitamins = \<lparr> c_id = 1, c_name = ''Vitamins'', c_slug = ''vitamins'',
                 c_description = None, c_createdAt = Some 1 \<rparr>"

definition vitamin_d3 :: Product where
  "vitamin_d3 = \<lparr> p_id = 1, p_name = ''Vitamin D3'', p_slug = ''vitamin-d3'',
                   p_description = None, p_shortDescription = None, p_price = ''9.99'',
                   p_originalPrice = None, p_dosage = None, p_categoryId = Some 1,
                   p_brandId = None, p_imageUrl = None, p_stockQuantity = Some 10,
                   p_requiresPrescription = Some False, p_isActive = Some True,
                   p_rating = Some ''0'', p_reviewCount = Some 0, p_createdAt = Some 2,
                   p_updatedAt = Some 2 \<rparr>"

definition aspirin :: Product where
  "aspirin = vitamin_d3\<lparr> p_id := 2, p_name := ''Aspirin'', p_slug := ''aspirin'',
                          p_categoryId := None, p_createdAt := Some 3 \<rparr>"

definition retired :: Product where
  "retired = vitamin_d3\<lparr> p_id := 3, p_name := ''Retired'', p_slug := ''retired'',
                          p_isActive := Some False, p_createdAt := Some 4 \<rparr>"

definition shop :: DB where
  "shop = \<lparr> users = [alice], adminPermissions = [], categories = [vitamins], brands = [],
             products = [vitamin_d3, aspirin, retired], cartItems = [], orders = [],
             orderItems = [] \<rparr>"

definition d3_key :: string where
  "d3_key = ''00000000-0000-0000-0000-000000000001''"








definition order1 :: Order where
  "order1 = \<lparr> o_id = 1, o_userId = ''alice'', o_orderNumber = ''ORD-1'',
               o_status = ''pending'', o_totalAmount = ''9.99'', o_shippingAddress = None,
               o_billingAddress = None, o_paymentStatus = Some ''paid'',
               o_stripePaymentIntentId = None, o_createdAt = Some 7, o_updatedAt = Some 7 \<rparr>"

definition shop_with_order :: DB where
  "shop_with_order = shop\<lparr> orders := [order1] \<rparr>"




definition empty_db :: DB where
  "empty_db = \<lparr> users = [], adminPermissions = [], categories = [], brands = [],
                 products = [], cartItems = [], orders = [], orderItems = [] \<rparr>"

definition some_filters :: ProductFilters where
  "some_filters = \<lparr> f_categoryId = Some ''1'', f_brandId = Some ''4'', f_search = Some ''zinc'',
                     f_minPrice = Some 100, f_maxPrice = Some 200, f_inStock = Some True,
                     f_limit = Some 1, f_offset = Some 5 \<rparr>"

section \<open>Helper facts\<close>

lemma fold_max_ge: "x \<in> set xs \<Longrightarrow> x \<le> fold max xs (a::nat)"
proof (induction xs arbitrary: a)
  case Nil
  then show ?case by simp
next
  case (Cons y ys)
  have mono: "\<And>b. b \<le> fold max ys (b::nat)"
  proof -
    fix b :: nat
    show "b \<le> fold max ys b"
      by (induction ys arbitrary: b) (auto intro: order_trans [OF max.cobounded2])
  qed
  from Cons show ?case
    by (auto intro: order_trans [OF max.cobounded1 mono])
qed

lemma fresh_id_notin: "fresh_id ids \<notin> set ids"
proof
  assume "fresh_id ids \<in> set ids"
  then have "fresh_id ids \<le> fold max ids 0" by (rule fold_max_ge)
  then show False by (simp add: fresh_id_def)
qed

lemma fresh_id_other: "r \<in> set rows \<Longrightarrow> f r \<noteq> fresh_id (map f rows)"
proof
  assume "r \<in> set rows" and "f r = fresh_id (map f rows)"
  then have "fresh_id (map f rows) \<in> f ` set rows" by (metis imageI)
  then show False using fresh_id_notin [of "map f rows"] by simp
qed

lemma map_if_not: "\<forall>r\<in>set rows. \<not> cond r \<Longrightarrow> map (\<lambda>r. if cond r then f r else r) rows = rows"
  by (induction rows) auto


lemma update_where_keeps:
  assumes "\<And>r. cond (f r) = cond r"
  shows "filter cond (fst (update_where cond f rows)) = snd (update_where cond f rows)"
  using assms by (induction rows) (auto simp: update_where_def)

lemma update_where_last:
  assumes "\<forall>r\<in>set rows. \<not> cond r" "cond x"
  shows "update_where cond f (rows @ [x]) = (rows @ [f x], [f x])"
  using assms by (simp add: update_where_def map_if_not)

lemma filter_map_if:
  assumes "\<And>r. P (f r) = P r"
  shows "filter P (map (\<lambda>r. if cond r then f r else r) rows)
         = map (\<lambda>r. if cond r then f r else r) (filter P rows)"
  using assms by (induction rows) auto



lemma categoriesData_slugs:
  "map ic_slug categoriesData =
     [''vitamins-multivitamins'', ''probiotics-digestive-health'', ''dietary-supplements'',
      ''joint-bone-muscle-support'', ''hair-skin-nails'', ''pain-relief'',
      ''cold-cough-allergy'', ''urinary-health-cranberry'', ''skin-care-acne'',
      ''womens-health-feminine-care'', ''first-aid-wound-care'', ''digestive-antacid'',
      ''heart-health-coq10'', ''oral-care'', ''minerals-trace-elements'',
      ''herbal-natural-supplements'', ''general-health'']"
  by (simp add: categoriesData_def)

lemma categoriesData_distinct: "distinct (map ic_slug categoriesData)"
  unfolding categoriesData_slugs by simp

lemma categoriesData_first:
  "\<exists>rest. categoriesData = \<lparr> ic_name = ''Vitamins & Multivitamins'',
       ic_slug = ''vitamins-multivitamins'',
       ic_description = Some ''Essential vitamins and multivitamin supplements for daily health'' \<rparr> # rest"
  by (simp add: categoriesData_def)

lemma seed_categories_taken:
  "ic_slug categoryData \<in> set (map c_slug (categories db)) \<Longrightarrow>
     seed_categories now (categoryData # rest) cats db = (Inl UniqueViolation, db)"
  by (simp add: createCategory_def)

lemma seed_categories_ok:
  assumes "distinct (map ic_slug ds)"
      and "set (map ic_slug ds) \<inter> set (map c_slug (categories db)) = {}"
  shows "\<exists>cats' new. seed_categories now ds cats db
                         = (Inr cats', db\<lparr>categories := categories db @ new\<rparr>)
           \<and> map c_slug new = map ic_slug ds \<and> map c_name new = map ic_name ds
           \<and> dom cats' = dom cats \<union> set (map ic_slug ds)"
  using assms
proof (induction ds arbitrary: cats db)
  case Nil
  then show ?case by simp
next
  case (Cons d ds)
  define c where "c = \<lparr> c_id = fresh_id (map c_id (categories db)), c_name = ic_name d,
                         c_slug = ic_slug d, c_description = ic_description d,
                         c_createdAt = Some now \<rparr>"
  let ?db1 = "db\<lparr>categories := categories db @ [c]\<rparr>"
  from Cons.prems have cr: "createCategory now d db = (Inr c, ?db1)"
    by (simp add: createCategory_def c_def Let_def)
  from Cons.prems have "distinct (map ic_slug ds)"
    and "set (map ic_slug ds) \<inter> set (map c_slug (categories ?db1)) = {}"
    by (auto simp: c_def)
  from Cons.IH [OF this, of "cats(ic_slug d \<mapsto> c)"] obtain cats' new where
    rec: "seed_categories now ds (cats(ic_slug d \<mapsto> c)) ?db1
            = (Inr cats', ?db1\<lparr>categories := categories ?db1 @ new\<rparr>)"
    and new: "map c_slug new = map ic_slug ds" "map c_name new = map ic_name ds"
    and d: "dom cats' = dom (cats(ic_slug d \<mapsto> c)) \<union> set (map ic_slug ds)"
    by blast
  have "seed_categories now (d # ds) cats db
          = (Inr cats', db\<lparr>categories := categories db @ (c # new)\<rparr>)"
    using cr rec by simp
  moreover have "map c_slug (c # new) = map ic_slug (d # ds)"
    and "map c_name (c # new) = map ic_name (d # ds)"
    using new by (simp_all add: c_def)
  moreover have "dom cats' = dom cats \<union> set (map ic_slug (d # ds))"
    using d by auto
  ultimately show ?case by blast
qed

lemma find_filter_conv: "find P xs = first_row (filter P xs)"
  by (induction xs) auto

lemma leftJoin_unique:
  assumes "\<forall>l\<in>set ls. length (filter (on l) rs) \<le> Suc 0"
  shows "leftJoin ls rs on = map (\<lambda>l. (l, find (on l) rs)) ls"
  using assms
proof (induction ls)
  case Nil
  then show ?case by (simp add: leftJoin_def)
next
  case (Cons l ls)
  then have one: "length (filter (on l) rs) \<le> Suc 0" by simp
  have "(case filter (on l) rs of [] \<Rightarrow> [(l, None)] | ms \<Rightarrow> map (\<lambda>r. (l, Some r)) ms)
        = [(l, find (on l) rs)]"
    using one unfolding find_filter_conv
    by (cases "filter (on l) rs") (auto split: list.splits)
  with Cons show ?case by (simp add: leftJoin_def)
qed

lemma key_unique:
  "distinct (map f rs) \<Longrightarrow> length (filter (\<lambda>r. k = Some (f r)) rs) \<le> Suc 0"
proof (induction rs)
  case Nil
  then show ?case by simp
next
  case (Cons r rs)
  then show ?case
    by (cases "k = Some (f r)") (auto simp: filter_empty_conv image_iff)
qed

lemma newer_eq_total: "newer_eq a b \<or> newer_eq b a"
  by (cases a; cases b) auto

lemma newer_eq_trans: "newer_eq a b \<Longrightarrow> newer_eq b c \<Longrightarrow> newer_eq a c"
  by (cases a; cases b; cases c) auto

lemma mset_insert_desc: "mset (insert_desc k x xs) = add_mset x (mset xs)"
  by (induction xs) auto

lemma mset_orderBy_desc: "mset (orderBy_desc k xs) = mset xs"
  by (induction xs) (auto simp: orderBy_desc_def mset_insert_desc)

lemma mset_map_orderBy_desc: "mset (map f (orderBy_desc k xs)) = mset (map f xs)"
  by (simp add: mset_orderBy_desc)

lemma set_insert_desc: "set (insert_desc k x xs) = insert x (set xs)"
  by (induction xs) auto

lemma set_orderBy_desc: "set (orderBy_desc k xs) = set xs"
  by (induction xs) (auto simp: orderBy_desc_def set_insert_desc)

lemma sorted_insert_desc:
  "sorted_wrt (\<lambda>a b. newer_eq (k a) (k b)) xs \<Longrightarrow>
   sorted_wrt (\<lambda>a b. newer_eq (k a) (k b)) (insert_desc k x xs)"
proof (induction xs)
  case Nil
  then show ?case by simp
next
  case (Cons y ys)
  show ?case
  proof (cases "newer_eq (k x) (k y)")
    case True
    with Cons.prems show ?thesis by (auto intro: newer_eq_trans)
  next
    case False
    then have "newer_eq (k y) (k x)" using newer_eq_total by blast
    with False Cons show ?thesis by (auto simp: set_insert_desc)
  qed
qed

lemma sorted_orderBy_desc: "sorted_wrt (\<lambda>a b. newer_eq (k a) (k b)) (orderBy_desc k xs)"
  by (induction xs) (auto simp: orderBy_desc_def intro: sorted_insert_desc [unfolded orderBy_desc_def])

lemma find_False: "find (\<lambda>r. False) rs = None"
  by (induction rs) auto

lemma find_SomeD: "find P xs = Some x \<Longrightarrow> x \<in> set xs \<and> P x"
  by (induction xs) (auto split: if_splits)

lemma getProducts_rows:
  assumes cs: "distinct (map c_id (categories db))" and bs: "distinct (map b_id (brands db))"
  shows "getProducts filters db =
     map (\<lambda>((p, c), b). \<lparr>pr_product = p, pr_category = c, pr_brand = b\<rparr>)
       (orderBy_desc (\<lambda>((p, c), b). p_createdAt p)
          (map (\<lambda>p. ((p, find (\<lambda>c. p_categoryId p = Some (c_id c)) (categories db)),
                       find (\<lambda>b. p_brandId p = Some (b_id b)) (brands db)))
             (filter (\<lambda>p. p_isActive p = Some True) (products db))))"
proof -
  have j1: "leftJoin (products db) (categories db) (\<lambda>p c. p_categoryId p = Some (c_id c))
            = map (\<lambda>p. (p, find (\<lambda>c. p_categoryId p = Some (c_id c)) (categories db))) (products db)"
    by (rule leftJoin_unique) (simp add: key_unique [OF cs])
  have j2: "leftJoin (map (\<lambda>p. (p, find (\<lambda>c. p_categoryId p = Some (c_id c)) (categories db))) (products db))
              (brands db) (\<lambda>(p, c) b. p_brandId p = Some (b_id b))
            = map (\<lambda>l. (l, find ((\<lambda>(p, c) b. p_brandId p = Some (b_id b)) l) (brands db)))
                (map (\<lambda>p. (p, find (\<lambda>c. p_categoryId p = Some (c_id c)) (categories db))) (products db))"
    by (rule leftJoin_unique) (auto simp: key_unique [OF bs])
  show ?thesis
    unfolding getProducts_def j1 j2 Let_def
    by (simp add: filter_map comp_def)
qed

lemma in_leftJoin:
  "(l, x) \<in> set (leftJoin ls rs on) \<longleftrightarrow>
     l \<in> set ls \<and> (case x of None \<Rightarrow> \<forall>r\<in>set rs. \<not> on l r | Some r \<Rightarrow> r \<in> set rs \<and> on l r)"
proof -
  have one: "(l, x) \<in> set (case filter (on l') rs of [] \<Rightarrow> [(l', None)]
                                | ms \<Rightarrow> map (\<lambda>r. (l', Some r)) ms) \<longleftrightarrow>
       l = l' \<and> (case x of None \<Rightarrow> \<forall>r\<in>set rs. \<not> on l r | Some r \<Rightarrow> r \<in> set rs \<and> on l r)" for l'
  proof (cases "filter (on l') rs")
    case Nil
    then show ?thesis by (auto simp: filter_empty_conv split: option.splits)
  next
    case (Cons m ms)
    then have "set (filter (on l') rs) = set (m # ms)" by simp
    then have ne: "\<exists>r\<in>set rs. on l' r" by auto
    have "(l, x) \<in> set (map (\<lambda>r. (l', Some r)) (filter (on l') rs)) \<longleftrightarrow>
          l = l' \<and> (case x of None \<Rightarrow> \<forall>r\<in>set rs. \<not> on l r | Some r \<Rightarrow> r \<in> set rs \<and> on l r)"
      using ne by (auto split: option.splits)
    then show ?thesis using Cons by simp
  qed
  show ?thesis
    unfolding leftJoin_def set_concat using one by auto
qed

lemma order_join_no_items:
  assumes ord: "ord \<in> set (orders db)" and pk: "distinct (map o_id (orders db))"
      and empty: "\<forall>i\<in>set (orderItems db). oi_orderId i \<noteq> o_id ord"
  shows "((ord, None), None) \<in> set (order_join db)"
    and "\<forall>row\<in>set (order_join db). o_id (fst (fst row)) = o_id ord \<longrightarrow> row = ((ord, None), None)"
proof -
  show "((ord, None), None) \<in> set (order_join db)"
    using ord empty by (force simp: order_join_def in_leftJoin)
  show "\<forall>row\<in>set (order_join db). o_id (fst (fst row)) = o_id ord \<longrightarrow> row = ((ord, None), None)"
  proof (intro ballI impI)
    fix row assume r: "row \<in> set (order_join db)" and k: "o_id (fst (fst row)) = o_id ord"
    obtain ord' i p where row: "row = ((ord', i), p)" by (metis prod.collapse)
    from r have j: "(ord', i) \<in> set (leftJoin (orders db) (orderItems db) (\<lambda>ord i. o_id ord = oi_orderId i))"
      and p: "case p of None \<Rightarrow> True | Some pr \<Rightarrow> (case i of None \<Rightarrow> False | Some item \<Rightarrow> oi_productId item = p_id pr)"
      unfolding row order_join_def in_leftJoin by (auto split: option.splits)
    from j have o': "ord' \<in> set (orders db)"
      and i: "case i of None \<Rightarrow> True | Some item \<Rightarrow> item \<in> set (orderItems db) \<and> o_id ord' = oi_orderId item"
      unfolding in_leftJoin by (auto split: option.splits)
    from k have "o_id ord' = o_id ord" by (simp add: row)
    with o' ord pk have same: "ord' = ord" by (metis distinct_map inj_onD)
    with i empty have "i = None" by (cases i) auto
    with p have "p = None" by (cases p) auto
    with same \<open>i = None\<close> show "row = ((ord, None), None)" by (simp add: row)
  qed
qed

lemma map_of_retag:
  "map_of (map (\<lambda>kv. if fst kv = k' then (fst kv, h (snd kv)) else kv) g) k
   = (if k = k' then map_option h (map_of g k) else map_of g k)"
  by (induction g) auto

lemma map_of_snoc:
  "map_of (g @ [(k', v)]) k = (case map_of g k of None \<Rightarrow> (if k = k' then Some v else None) | Some x \<Rightarrow> Some x)"
  by (simp add: map_add_def split: option.splits)

lemma group_step_cases:
  "group_step g row =
     (let orderId = o_id (fst (fst row));
          g1 = (if map_of g orderId = None
                then g @ [(orderId, \<lparr> owi_order = fst (fst row), owi_orderItems = [] \<rparr>)]
                else g)
      in if paired row = [] then g1
         else map (\<lambda>kv. if fst kv = orderId
                         then (fst kv, (\<lambda>v. v\<lparr>owi_orderItems := owi_orderItems v @ paired row\<rparr>) (snd kv))
                         else kv) g1)"
  by (auto simp: group_step_def paired_def Let_def split: option.splits)

lemma group_step_other:
  assumes "o_id (fst (fst row)) \<noteq> k"
  shows "map_of (group_step g row) k = map_of g k"
proof -
  let ?id = "o_id (fst (fst row))"
  let ?g1 = "if map_of g ?id = None
             then g @ [(?id, \<lparr> owi_order = fst (fst row), owi_orderItems = [] \<rparr>)] else g"
  have g1: "map_of ?g1 k = map_of g k"
    using assms by (simp add: map_of_snoc del: map_of_append split: option.splits)
  have r: "map_of (map (\<lambda>kv. if fst kv = ?id then (fst kv, h (snd kv)) else kv) ?g1) k
           = map_of g k" for h
    using assms g1 by (simp only: map_of_retag) simp
  note r' = r [of "\<lambda>v. v\<lparr>owi_orderItems := owi_orderItems v @ paired row\<rparr>"]
  show ?thesis
  proof (cases "paired row = []")
    case True
    have "group_step g row = ?g1"
      unfolding group_step_cases Let_def using True by simp
    with g1 show ?thesis by (simp only:)
  next
    case False
    have "group_step g row =
            map (\<lambda>kv. if fst kv = ?id
                       then (fst kv, (snd kv)\<lparr>owi_orderItems := owi_orderItems (snd kv) @ paired row\<rparr>)
                       else kv) ?g1"
      unfolding group_step_cases Let_def using False by simp
    with r' show ?thesis by (simp only:)
  qed
qed

lemma group_step_bare:
  "map_of (group_step g ((ord, None), None)) (o_id ord)
   = (case map_of g (o_id ord) of
        None \<Rightarrow> Some \<lparr> owi_order = ord, owi_orderItems = [] \<rparr>
      | Some v \<Rightarrow> Some v)"
  by (simp add: group_step_cases paired_def Let_def map_of_snoc del: map_of_append
        split: option.splits)

lemma group_no_items:
  assumes "\<forall>row\<in>set rows. o_id (fst (fst row)) = o_id ord \<longrightarrow> row = ((ord, None), None)"
      and "map_of g (o_id ord) = Some \<lparr> owi_order = ord, owi_orderItems = [] \<rparr>
           \<or> (map_of g (o_id ord) = None \<and> ((ord, None), None) \<in> set rows)"
  shows "map_of (foldl group_step g rows) (o_id ord) = Some \<lparr> owi_order = ord, owi_orderItems = [] \<rparr>"
  using assms
proof (induction rows arbitrary: g)
  case Nil
  then show ?case by simp
next
  case (Cons row rows)
  have "map_of (group_step g row) (o_id ord) = Some \<lparr> owi_order = ord, owi_orderItems = [] \<rparr>
        \<or> (map_of (group_step g row) (o_id ord) = None \<and> ((ord, None), None) \<in> set rows)"
  proof (cases "o_id (fst (fst row)) = o_id ord")
    case True
    with Cons.prems(1) have "row = ((ord, None), None)" by simp
    with Cons.prems(2) show ?thesis by (auto simp: group_step_bare)
  next
    case False
    then have "row \<noteq> ((ord, None), None)" by auto
    with Cons.prems(2) False show ?thesis by (auto simp: group_step_other)
  qed
  moreover from Cons.prems(1)
  have "\<forall>row\<in>set rows. o_id (fst (fst row)) = o_id ord \<longrightarrow> row = ((ord, None), None)" by simp
  ultimately show ?case using Cons.IH by simp
qed

lemma fst_leftJoin: "fst ` set (leftJoin ls rs on) = set ls"
proof (intro set_eqI iffI)
  fix l assume "l \<in> fst ` set (leftJoin ls rs on)"
  then obtain x where "(l, x) \<in> set (leftJoin ls rs on)" by auto
  then show "l \<in> set ls" by (simp add: in_leftJoin)
next
  fix l assume l: "l \<in> set ls"
  show "l \<in> fst ` set (leftJoin ls rs on)"
  proof (cases "\<exists>r\<in>set rs. on l r")
    case True
    then obtain r where "r \<in> set rs" "on l r" by blast
    with l have "(l, Some r) \<in> set (leftJoin ls rs on)" by (simp add: in_leftJoin)
    then show ?thesis by force
  next
    case False
    with l have "(l, None) \<in> set (leftJoin ls rs on)" by (simp add: in_leftJoin)
    then show ?thesis by force
  qed
qed

lemma order_join_orders: "(\<lambda>row. fst (fst row)) ` set (order_join db) = set (orders db)"
proof -
  have "(\<lambda>row. fst (fst row)) ` set (order_join db) = fst ` (fst ` set (order_join db))"
    by (simp add: image_image)
  then show ?thesis by (simp add: order_join_def fst_leftJoin)
qed

lemma fst_retag:
  "fst ` set (map (\<lambda>kv. if fst kv = k then (fst kv, h (snd kv)) else kv) g) = fst ` set g"
  by (induction g) auto

lemma group_step_keys:
  "fst ` set (group_step g row) = insert (o_id (fst (fst row))) (fst ` set g)"
proof -
  let ?id = "o_id (fst (fst row))"
  let ?g1 = "if map_of g ?id = None
             then g @ [(?id, \<lparr> owi_order = fst (fst row), owi_orderItems = [] \<rparr>)] else g"
  have g1: "fst ` set ?g1 = insert ?id (fst ` set g)"
    by (auto simp: map_of_eq_None_iff)
  have "fst ` set (map (\<lambda>kv. if fst kv = ?id then (fst kv, h (snd kv)) else kv) ?g1)
        = fst ` set ?g1" for h
    by (rule fst_retag)
  note r = this [of "\<lambda>v. v\<lparr>owi_orderItems := owi_orderItems v @ paired row\<rparr>"]
  show ?thesis
  proof (cases "paired row = []")
    case True
    have "group_step g row = ?g1"
      unfolding group_step_cases Let_def using True by simp
    with g1 show ?thesis by (simp only:)
  next
    case False
    have "group_step g row =
            map (\<lambda>kv. if fst kv = ?id
                       then (fst kv, (snd kv)\<lparr>owi_orderItems := owi_orderItems (snd kv) @ paired row\<rparr>)
                       else kv) ?g1"
      unfolding group_step_cases Let_def using False by simp
    with r g1 show ?thesis by (simp only:)
  qed
qed

lemma group_keys:
  "fst ` set (foldl group_step g rows) = fst ` set g \<union> (\<lambda>row. o_id (fst (fst row))) ` set rows"
  by (induction rows arbitrary: g) (auto simp: group_step_keys)

lemma group_step_keyed:
  assumes "\<forall>kv\<in>set g. o_id (owi_order (snd kv)) = fst kv"
  shows "\<forall>kv\<in>set (group_step g row). o_id (owi_order (snd kv)) = fst kv"
  using assms unfolding group_step_cases Let_def by auto

lemma group_keyed:
  "\<forall>kv\<in>set g. o_id (owi_order (snd kv)) = fst kv \<Longrightarrow>
   \<forall>kv\<in>set (foldl group_step g rows). o_id (owi_order (snd kv)) = fst kv"
proof (induction rows arbitrary: g)
  case Nil
  then show ?case by simp
next
  case (Cons row rows)
  from group_step_keyed [OF Cons.prems] have "\<forall>kv\<in>set (group_step g row). o_id (owi_order (snd kv)) = fst kv" .
  from Cons.IH [OF this] show ?case by simp
qed

lemma concat_paired_bare:
  "\<forall>row\<in>set rows. row = ((ord, None), None) \<Longrightarrow> concat (map paired rows) = []"
  by (induction rows) (auto simp: paired_def)

lemma d3_key_value: "string_to_uuid d3_key = Some 1"
  by (simp add: string_to_uuid_def d3_key_def next_group_def hex_digit_def)




lemma int4_in_ok: "int4_ok n \<Longrightarrow> int4_in n = Inr n"
  by (simp add: int4_in_def)

lemma int4_in_bad: "\<not> int4_ok n \<Longrightarrow> \<exists>e. int4_in n = Inl e"
  by (simp add: int4_in_def)


lemma addToCart_new:
  assumes "userId \<in> set (map u_id (users db))" "string_to_uuid productId = Some pid"
    and "pid \<in> set (map p_id (products db))"
    and "cart_rows userId pid db = []" and "int4_ok quantity"
  shows "addToCart now userId productId quantity db =
     (let newItem = \<lparr> ci_id = fresh_id (map ci_id (cartItems db)), ci_userId = userId,
                      ci_productId = pid, ci_quantity = quantity,
                      ci_createdAt = Some now, ci_updatedAt = Some now \<rparr>
      in (Inr (Some newItem), db\<lparr>cartItems := cartItems db @ [newItem]\<rparr>))"
  using assms by (simp add: addToCart_def cart_rows_def Let_def int4_in_ok)

lemma addToCart_existing:
  assumes key: "string_to_uuid productId = Some pid"
      and rows: "cart_rows userId pid db = existingItem # rest"
      and ok: "int4_ok (ci_quantity existingItem + quantity)"
  shows "addToCart now userId productId quantity db =
     (Inr (first_row (snd (update_where (\<lambda>c. ci_id c = ci_id existingItem)
                      (\<lambda>c. c\<lparr> ci_quantity := ci_quantity existingItem + quantity,
                               ci_updatedAt := Some now \<rparr>) (cartItems db)))),
      db\<lparr>cartItems := fst (update_where (\<lambda>c. ci_id c = ci_id existingItem)
                      (\<lambda>c. c\<lparr> ci_quantity := ci_quantity existingItem + quantity,
                               ci_updatedAt := Some now \<rparr>) (cartItems db))\<rparr>)"
proof -
  have found: "first_row (filter (\<lambda>c. ci_userId c = userId \<and> ci_productId c = pid)
                 (cartItems db)) = Some existingItem"
    using rows by (simp add: cart_rows_def)
  show ?thesis
    using ok by (simp add: addToCart_def key found int4_in_ok split: prod.splits)
qed

lemma addToCart_overflow:
  assumes key: "string_to_uuid productId = Some pid"
      and rows: "cart_rows userId pid db = existingItem # rest"
      and bad: "\<not> int4_ok (ci_quantity existingItem + quantity)"
  shows "\<exists>e. addToCart now userId productId quantity db = (Inl e, db)"
proof -
  have found: "first_row (filter (\<lambda>c. ci_userId c = userId \<and> ci_productId c = pid)
                 (cartItems db)) = Some existingItem"
    using rows by (simp add: cart_rows_def)
  from int4_in_bad [OF bad] obtain e where "int4_in (ci_quantity existingItem + quantity) = Inl e"
    by blast
  then show ?thesis
    by (simp add: addToCart_def key found)
qed

lemma addToCart_rows_nonempty:
  assumes u: "userId \<in> set (map u_id (users db))"
      and key: "string_to_uuid productId = Some pid"
      and p: "pid \<in> set (map p_id (products db))"
      and q: "int4_ok quantity"
  shows "cart_rows userId pid (snd (addToCart now userId productId quantity db)) \<noteq> []"
proof (cases "cart_rows userId pid db")
  case Nil
  with addToCart_new [OF u key p Nil q, of now] show ?thesis
    by (simp add: Let_def cart_rows_def)
next
  case (Cons existingItem rest)
  show ?thesis
  proof (cases "int4_ok (ci_quantity existingItem + quantity)")
    case True
    have "cart_rows userId pid (snd (addToCart now userId productId quantity db))
        = map (\<lambda>c. if ci_id c = ci_id existingItem
                    then c\<lparr>ci_quantity := ci_quantity existingItem + quantity,
                           ci_updatedAt := Some now\<rparr> else c)
            (cart_rows userId pid db)"
      unfolding addToCart_existing [OF key Cons True]
      by (simp add: update_where_def cart_rows_def filter_map_if)
    with Cons show ?thesis by simp
  next
    case False
    from addToCart_overflow [OF key Cons False, of now] Cons show ?thesis by auto
  qed
qed
















section \<open>Cart: adding and replacing quantities\<close>

text \<open>
  C1, as the code has it. For a user and a product that exist, a cart that holds no row
  for the pair, and \<open>q1\<close> within the 32-bit range of the \<open>quantity\<close> column:
  \<open>addToCart\<close> inserts a new row with quantity \<open>q1\<close>. A second \<open>addToCart\<close> for the
  same pair increments that row instead of inserting another one when \<open>q1 + q2\<close> is
  within the range: afterwards the pair has exactly one row, and its quantity is
  \<open>q1 + q2\<close>. When \<open>q1 + q2\<close> is outside the range, the second call raises and writes
  nothing.
\<close>

theorem addToCart_twice:
  assumes u: "userId \<in> set (map u_id (users db))"
      and key: "string_to_uuid productId = Some pid"
      and p: "pid \<in> set (map p_id (products db))"
      and fresh: "cart_rows userId pid db = []"
      and q1: "int4_ok q1"
      and first: "addToCart t1 userId productId q1 db = (r1, db1)"
      and second: "addToCart t2 userId productId q2 db1 = (r2, db2)"
  shows "\<exists>item1.
           r1 = Inr (Some item1) \<and> ci_quantity item1 = q1
         \<and> cartItems db1 = cartItems db @ [item1]
         \<and> cart_rows userId pid db1 = [item1]
         \<and> (if int4_ok (q1 + q2)
             then \<exists>item2. r2 = Inr (Some item2) \<and> ci_quantity item2 = q1 + q2
                    \<and> cartItems db2 = cartItems db @ [item2]
                    \<and> cart_rows userId pid db2 = [item2]
             else (\<exists>e. r2 = Inl e) \<and> db2 = db1)"
proof -
  define item1 where "item1 = \<lparr> ci_id = fresh_id (map ci_id (cartItems db)), ci_userId = userId,
                      ci_productId = pid, ci_quantity = q1,
                      ci_createdAt = Some t1, ci_updatedAt = Some t1 \<rparr>"
  define item2 where "item2 = item1\<lparr>ci_quantity := q1 + q2, ci_updatedAt := Some t2\<rparr>"
  from first addToCart_new [OF u key p fresh q1, of t1]
  have r1: "r1 = Inr (Some item1)" and db1: "db1 = db\<lparr>cartItems := cartItems db @ [item1]\<rparr>"
    by (simp_all add: item1_def Let_def)
  have rows1: "cart_rows userId pid db1 = [item1]"
    using fresh by (simp add: db1 cart_rows_def item1_def)
  have q: "ci_quantity item1 = q1" by (simp add: item1_def)
  have other: "\<forall>c\<in>set (cartItems db). \<not> ci_id c = ci_id item1"
    by (simp add: item1_def fresh_id_other)
  have upd: "update_where (\<lambda>c. ci_id c = ci_id item1)
               (\<lambda>c. c\<lparr>ci_quantity := ci_quantity item1 + q2, ci_updatedAt := Some t2\<rparr>)
               (cartItems db @ [item1]) = (cartItems db @ [item2], [item2])"
    using update_where_last [OF other, of item1] by (simp add: item2_def item1_def)
  have tail: "if int4_ok (q1 + q2)
             then \<exists>item2. r2 = Inr (Some item2) \<and> ci_quantity item2 = q1 + q2
                    \<and> cartItems db2 = cartItems db @ [item2]
                    \<and> cart_rows userId pid db2 = [item2]
             else (\<exists>e. r2 = Inl e) \<and> db2 = db1"
  proof (cases "int4_ok (q1 + q2)")
    case True
    then have ok: "int4_ok (ci_quantity item1 + q2)" by (simp add: q)
    from second addToCart_existing [OF key rows1 ok, of t2]
    have r2: "r2 = Inr (Some item2)" and db2: "db2 = db1\<lparr>cartItems := cartItems db @ [item2]\<rparr>"
      using upd by (simp_all add: db1)
    have rows2: "cart_rows userId pid db2 = [item2]"
      using fresh by (simp add: db2 cart_rows_def item2_def item1_def)
    from True r2 db2 rows2 show ?thesis by (simp add: item2_def)
  next
    case False
    then have bad: "\<not> int4_ok (ci_quantity item1 + q2)" by (simp add: q)
    from second addToCart_overflow [OF key rows1 bad, of t2] False show ?thesis by auto
  qed
  have c1: "cartItems db1 = cartItems db @ [item1]" by (simp add: db1)
  show ?thesis
    by (rule exI [of _ item1]) (intro conjI r1 q c1 rows1 tail)
qed

theorem addToCart_twice_witness:
  "''alice'' \<in> set (map u_id (users shop)) \<and> string_to_uuid d3_key = Some 1
   \<and> 1 \<in> set (map p_id (products shop)) \<and> cart_rows ''alice'' 1 shop = []
   \<and> int4_ok 2 \<and> int4_ok (2 + 3)
   \<and> map ci_quantity (cart_rows ''alice'' 1 (snd (addToCart 5 ''alice'' d3_key 2 shop))) = [2]
   \<and> map ci_quantity
        (cart_rows ''alice'' 1
           (snd (addToCart 6 ''alice'' d3_key 3 (snd (addToCart 5 ''alice'' d3_key 2 shop))))) = [5]"
proof -
  have u: "''alice'' \<in> set (map u_id (users shop))" by (simp add: shop_def alice_def)
  have p: "1 \<in> set (map p_id (products shop))" by (simp add: shop_def vitamin_d3_def)
  have e: "cart_rows ''alice'' 1 shop = []" by (simp add: cart_rows_def shop_def)
  have q: "int4_ok 2" "int4_ok (2 + 3)" by (simp_all add: int4_ok_def)
  obtain r1 db1 where s1: "addToCart 5 ''alice'' d3_key 2 shop = (r1, db1)" by fastforce
  obtain r2 db2 where s2: "addToCart 6 ''alice'' d3_key 3 db1 = (r2, db2)" by fastforce
  from addToCart_twice [OF u d3_key_value p e q(1) s1 s2] q(2)
  have "map ci_quantity (cart_rows ''alice'' 1 db1) = [2]"
    and "map ci_quantity (cart_rows ''alice'' 1 db2) = [5]" by auto
  with u p e q s1 s2 d3_key_value show ?thesis by simp
qed

text \<open>
  The claim C1 as stated (every \<open>q1\<close> and \<open>q2\<close>) fails: after 2147483647 is put in the
  cart, adding 1 raises, and the one row of the pair keeps 2147483647, not the sum.
\<close>

theorem addToCart_overflow_counterexample:
  "''alice'' \<in> set (map u_id (users shop)) \<and> string_to_uuid d3_key = Some 1
   \<and> 1 \<in> set (map p_id (products shop)) \<and> cart_rows ''alice'' 1 shop = []
   \<and> fst (addToCart 6 ''alice'' d3_key 1 (snd (addToCart 5 ''alice'' d3_key 2147483647 shop)))
       = Inl NumericValueOutOfRange
   \<and> map ci_quantity
        (cart_rows ''alice'' 1
           (snd (addToCart 6 ''alice'' d3_key 1
                   (snd (addToCart 5 ''alice'' d3_key 2147483647 shop))))) = [2147483647]"
proof -
  have u: "''alice'' \<in> set (map u_id (users shop))" by (simp add: shop_def alice_def)
  have p: "1 \<in> set (map p_id (products shop))" by (simp add: shop_def vitamin_d3_def)
  have e: "cart_rows ''alice'' 1 shop = []" by (simp add: cart_rows_def shop_def)
  have q: "int4_ok 2147483647" by (simp add: int4_ok_def)
  define item1 where "item1 = \<lparr> ci_id = fresh_id (map ci_id (cartItems shop)),
       ci_userId = ''alice'', ci_productId = 1, ci_quantity = 2147483647,
       ci_createdAt = Some 5, ci_updatedAt = Some 5 \<rparr>"
  have s1: "addToCart 5 ''alice'' d3_key 2147483647 shop
              = (Inr (Some item1), shop\<lparr>cartItems := cartItems shop @ [item1]\<rparr>)"
    using addToCart_new [OF u d3_key_value p e q, of 5] by (simp add: item1_def Let_def)
  have rows: "cart_rows ''alice'' 1 (shop\<lparr>cartItems := cartItems shop @ [item1]\<rparr>) = [item1]"
    by (simp add: cart_rows_def shop_def item1_def)
  have s2: "addToCart 6 ''alice'' d3_key 1 (shop\<lparr>cartItems := cartItems shop @ [item1]\<rparr>)
              = (Inl NumericValueOutOfRange, shop\<lparr>cartItems := cartItems shop @ [item1]\<rparr>)"
    using rows
    by (simp add: addToCart_def d3_key_value cart_rows_def int4_in_def int4_ok_def item1_def)
  show ?thesis
    unfolding s1 snd_conv s2 fst_conv rows
    using u p e d3_key_value by (simp add: item1_def)
qed

text \<open>
  C4. \<open>updateCartItem\<close> writes the quantity it is given, it does not add to the
  stored one: for a user and a product that exist and quantities within the range of the
  column, after \<open>addToCart(u, p, q1)\<close> and \<open>updateCartItem(u, p, q2)\<close> the pair has a
  row, every row of the pair has quantity \<open>q2\<close>, and the row returned has quantity
  \<open>q2\<close> (7 and not 10 for \<open>q1 = 3\<close>, \<open>q2 = 7\<close>).
\<close>

theorem updateCartItem_replaces:
  assumes u: "userId \<in> set (map u_id (users db))"
      and key: "string_to_uuid productId = Some pid"
      and p: "pid \<in> set (map p_id (products db))"
      and q1: "int4_ok q1" and q2: "int4_ok q2"
      and first: "addToCart t1 userId productId q1 db = (r1, db1)"
      and second: "updateCartItem t2 userId productId q2 db1 = (r2, db2)"
  shows "(\<exists>item. r2 = Inr (Some item) \<and> ci_quantity item = q2)
         \<and> cart_rows userId pid db2 \<noteq> []
         \<and> (\<forall>c\<in>set (cart_rows userId pid db2). ci_quantity c = q2)
         \<and> length (cart_rows userId pid db2) = length (cart_rows userId pid db1)"
proof -
  let ?c = "\<lambda>c. ci_userId c = userId \<and> ci_productId c = pid"
  let ?f = "\<lambda>c. c\<lparr>ci_quantity := q2, ci_updatedAt := Some t2\<rparr>"
  have ne: "cart_rows userId pid db1 \<noteq> []"
    using addToCart_rows_nonempty [OF u key p q1, of t1] first by simp
  have keeps: "filter ?c (fst (update_where ?c ?f (cartItems db1)))
               = snd (update_where ?c ?f (cartItems db1))"
    by (rule update_where_keeps) simp
  from second have r2: "r2 = Inr (first_row (snd (update_where ?c ?f (cartItems db1))))"
    and db2: "db2 = db1\<lparr>cartItems := fst (update_where ?c ?f (cartItems db1))\<rparr>"
    by (auto simp: updateCartItem_def key int4_in_ok [OF q2] split: prod.splits)
  have rows2: "cart_rows userId pid db2 = map ?f (cart_rows userId pid db1)"
    unfolding db2 cart_rows_def using keeps by (simp add: update_where_def)
  obtain x xs where x: "cart_rows userId pid db1 = x # xs"
    using ne by (cases "cart_rows userId pid db1") auto
  have "r2 = Inr (Some (?f x))"
    unfolding r2 using x by (simp add: update_where_def cart_rows_def)
  then have "\<exists>item. r2 = Inr (Some item) \<and> ci_quantity item = q2" by simp
  moreover have "cart_rows userId pid db2 \<noteq> []" using ne rows2 by simp
  moreover have "\<forall>c\<in>set (cart_rows userId pid db2). ci_quantity c = q2"
    unfolding rows2 by simp
  moreover have "length (cart_rows userId pid db2) = length (cart_rows userId pid db1)"
    unfolding rows2 by simp
  ultimately show ?thesis by blast
qed

theorem updateCartItem_replaces_witness:
  "''alice'' \<in> set (map u_id (users shop)) \<and> string_to_uuid d3_key = Some 1
   \<and> 1 \<in> set (map p_id (products shop)) \<and> int4_ok 3 \<and> int4_ok 7
   \<and> map ci_quantity
        (cart_rows ''alice'' 1
           (snd (updateCartItem 6 ''alice'' d3_key 7 (snd (addToCart 5 ''alice'' d3_key 3 shop))))) = [7]"
proof -
  have u: "''alice'' \<in> set (map u_id (users shop))" by (simp add: shop_def alice_def)
  have p: "1 \<in> set (map p_id (products shop))" by (simp add: shop_def vitamin_d3_def)
  have e: "cart_rows ''alice'' 1 shop = []" by (simp add: cart_rows_def shop_def)
  have q: "int4_ok 3" "int4_ok 7" by (simp_all add: int4_ok_def)
  obtain r1 db1 where s1: "addToCart 5 ''alice'' d3_key 3 shop = (r1, db1)" by fastforce
  obtain r2 db2 where s2: "updateCartItem 6 ''alice'' d3_key 7 db1 = (r2, db2)" by fastforce
  have "length (cart_rows ''alice'' 1 db1) = 1"
    using addToCart_new [OF u d3_key_value p e q(1), of 5] s1
    by (auto simp: Let_def cart_rows_def shop_def)
  with updateCartItem_replaces [OF u d3_key_value p q s1 s2]
  have "map ci_quantity (cart_rows ''alice'' 1 db2) = [7]"
    by (cases "cart_rows ''alice'' 1 db2") auto
  with u p q s1 s2 d3_key_value show ?thesis by simp
qed

section \<open>Admin permissions and the admin flag\<close>




text \<open>
  C8, as the code has it. \<open>setUserAdmin(id, isAdmin)\<close> without a role hands
  \<open>adminRole: undefined\<close> to \<open>set\<close>, and the query builder leaves an undefined key out
  of the statement: the stored role stays as it was. The admin flag and the update
  timestamp of the matching user are written, every other field and every other row is
  unchanged.
\<close>

theorem setUserAdmin_keeps_role:
  assumes "setUserAdmin now ident isAdmin None db = (res, db')"
  shows "list_all2 (\<lambda>u u'. if u_id u = ident
                            then u' = u\<lparr>u_isAdmin := Some isAdmin, u_updatedAt := Some now\<rparr>
                                 \<and> u_adminRole u' = u_adminRole u
                            else u' = u) (users db) (users db')
         \<and> db'\<lparr>users := users db\<rparr> = db
         \<and> res = Inr (first_row (filter (\<lambda>u. u_id u = ident) (users db')))"
proof -
  let ?f = "\<lambda>u. u\<lparr>u_isAdmin := Some isAdmin, u_adminRole := u_adminRole u, u_updatedAt := Some now\<rparr>"
  have keeps: "filter (\<lambda>u. u_id u = ident) (fst (update_where (\<lambda>u. u_id u = ident) ?f (users db)))
        = snd (update_where (\<lambda>u. u_id u = ident) ?f (users db))"
    by (rule update_where_keeps) simp
  from assms have db': "db' = db\<lparr>users := fst (update_where (\<lambda>u. u_id u = ident) ?f (users db))\<rparr>"
    and res: "res = Inr (first_row (snd (update_where (\<lambda>u. u_id u = ident) ?f (users db))))"
    by (auto simp: setUserAdmin_def set_col_def split: prod.splits)
  have "list_all2 (\<lambda>u u'. if u_id u = ident
                            then u' = u\<lparr>u_isAdmin := Some isAdmin, u_updatedAt := Some now\<rparr>
                                 \<and> u_adminRole u' = u_adminRole u
                            else u' = u) (users db) (users db')"
    unfolding db' by (simp add: update_where_def list_all2_map2 list_all2_same)
  moreover have "db'\<lparr>users := users db\<rparr> = db" unfolding db' by simp
  moreover have "res = Inr (first_row (filter (\<lambda>u. u_id u = ident) (users db')))"
    unfolding res db' using keeps by simp
  ultimately show ?thesis by blast
qed

theorem setUserAdmin_keeps_role_witness:
  "map u_adminRole (users (snd (setUserAdmin 9 ''alice'' True None shop)))
     = [Some ''super_admin'']
   \<and> map u_updatedAt (users (snd (setUserAdmin 9 ''alice'' True None shop))) = [Some 9]"
proof -
  obtain r db' where s: "setUserAdmin 9 ''alice'' True None shop = (r, db')" by fastforce
  have us: "users shop = [alice]" and a: "u_id alice = ''alice''"
    and role: "u_adminRole alice = Some ''super_admin''"
    by (simp_all add: shop_def alice_def)
  from setUserAdmin_keeps_role [OF s]
  have "list_all2 (\<lambda>u u'. if u_id u = ''alice''
                            then u' = u\<lparr>u_isAdmin := Some True, u_updatedAt := Some 9\<rparr>
                                 \<and> u_adminRole u' = u_adminRole u
                            else u' = u) [alice] (users db')"
    unfolding us by blast
  then have "users db' = [alice\<lparr>u_isAdmin := Some True, u_updatedAt := Some 9\<rparr>]"
    by (cases "users db'") (auto simp: a)
  with s role show ?thesis by simp
qed

text \<open>
  The claim C8 as stated (the role is cleared) fails: a super admin whose flag is withdrawn
  without a role keeps the role label.
\<close>

theorem setUserAdmin_clears_role_counterexample:
  "map u_adminRole (users (snd (setUserAdmin 9 ''alice'' False None shop)))
     = [Some ''super_admin'']
   \<and> map u_isAdmin (users (snd (setUserAdmin 9 ''alice'' False None shop))) = [Some False]"
  by (simp add: setUserAdmin_def update_where_def set_col_def shop_def alice_def)

section \<open>Order status\<close>




section \<open>Updates by a key that matches no row\<close>




section \<open>Creating an order\<close>




section \<open>Seeding the catalog\<close>

text \<open>
  C7, as the code has it. The seeder passes each of its seventeen category definitions to
  \<open>createCategory\<close> without looking for an existing row, but \<open>categories.slug\<close> is
  unique in the schema. On a database without these slugs the loop creates the seventeen
  rows. A later run on a database that still holds them (the brand and product phases
  write no category) is stopped by the unique violation of its first \<open>createCategory\<close>:
  it adds no row, and slugs that were distinct stay distinct.
\<close>

theorem seeding_twice_unique_violation:
  assumes clean: "set (map c_slug (categories db)) \<inter> set (map ic_slug categoriesData) = {}"
      and first: "seed_categories now categoriesData Map.empty db = (r1, db1)"
      and later: "categories db2 = categories db1"
      and second: "seedAuthenticCatalog now' brands_and_products db2 = (r2, db2')"
  shows "(\<exists>cats. r1 = Inr cats \<and> dom cats = set (map ic_slug categoriesData))
         \<and> map c_slug (categories db1) = map c_slug (categories db) @ map ic_slug categoriesData
         \<and> map c_name (categories db1) = map c_name (categories db) @ map ic_name categoriesData
         \<and> r2 = Inl UniqueViolation \<and> db2' = db2
         \<and> (distinct (map c_slug (categories db)) \<longrightarrow> distinct (map c_slug (categories db2')))"
proof -
  from clean have clean': "set (map ic_slug categoriesData) \<inter> set (map c_slug (categories db)) = {}"
    by blast
  from seed_categories_ok [OF categoriesData_distinct clean', of now Map.empty] first
  obtain cats new where r1: "r1 = Inr cats" and db1: "db1 = db\<lparr>categories := categories db @ new\<rparr>"
    and new: "map c_slug new = map ic_slug categoriesData" "map c_name new = map ic_name categoriesData"
    and d: "dom cats = set (map ic_slug categoriesData)"
    by auto
  have slugs1: "map c_slug (categories db1) = map c_slug (categories db) @ map ic_slug categoriesData"
    by (simp add: db1 new)
  obtain d0 rest where cd: "categoriesData = d0 # rest"
    using categoriesData_first by blast
  have "ic_slug d0 \<in> set (map ic_slug categoriesData)" unfolding cd by simp
  then have "ic_slug d0 \<in> set (map c_slug (categories db2))"
    unfolding later slugs1 by simp
  then have "seed_categories now' categoriesData Map.empty db2 = (Inl UniqueViolation, db2)"
    unfolding cd by (rule seed_categories_taken)
  with second have r2: "r2 = Inl UniqueViolation" "db2' = db2"
    by (simp_all add: seedAuthenticCatalog_def)
  have "distinct (map c_slug (categories db)) \<longrightarrow> distinct (map c_slug (categories db2'))"
    using clean categoriesData_distinct unfolding r2 later slugs1 by auto
  with r1 d slugs1 r2 new db1 show ?thesis by simp
qed

theorem seeding_twice_witness:
  "set (map c_slug (categories empty_db)) \<inter> set (map ic_slug categoriesData) = {}
   \<and> length (categories (snd (seed_categories 1 categoriesData Map.empty empty_db))) = 17
   \<and> seedAuthenticCatalog 2 empty_catalog
        (snd (seed_categories 1 categoriesData Map.empty empty_db))
      = (Inl UniqueViolation, snd (seed_categories 1 categoriesData Map.empty empty_db))"
proof -
  have clean: "set (map c_slug (categories empty_db)) \<inter> set (map ic_slug categoriesData) = {}"
    by (simp add: empty_db_def)
  obtain r1 db1 where first: "seed_categories 1 categoriesData Map.empty empty_db = (r1, db1)"
    by fastforce
  obtain r2 db2' where second: "seedAuthenticCatalog 2 empty_catalog db1 = (r2, db2')"
    by fastforce
  from seeding_twice_unique_violation [OF clean first refl second]
  have "map c_slug (categories db1) = map ic_slug categoriesData"
    and r2: "r2 = Inl UniqueViolation" "db2' = db1"
    by (simp_all add: empty_db_def)
  then have "length (map c_slug (categories db1)) = 17"
    unfolding categoriesData_slugs by simp
  then have "length (categories db1) = 17" by simp
  with clean first second r2 show ?thesis by simp
qed

text \<open>
  The claim C7 as stated (a second run produces duplicate Category rows) fails: seeding an
  empty database twice with an empty catalog file, the first run creates the seventeen
  categories, the second is refused, and the table holds each slug once.
\<close>

theorem seeding_twice_counterexample:
  "fst (seedAuthenticCatalog 1 empty_catalog empty_db) = Inr (17, 0, 0)
   \<and> fst (seedAuthenticCatalog 2 empty_catalog (snd (seedAuthenticCatalog 1 empty_catalog empty_db)))
       = Inl UniqueViolation
   \<and> map c_slug (categories
        (snd (seedAuthenticCatalog 2 empty_catalog (snd (seedAuthenticCatalog 1 empty_catalog empty_db)))))
       = map ic_slug categoriesData
   \<and> distinct (map ic_slug categoriesData)"
proof -
  have clean: "set (map ic_slug categoriesData) \<inter> set (map c_slug (categories empty_db)) = {}"
    by (simp add: empty_db_def)
  from seed_categories_ok [OF categoriesData_distinct clean, of 1 Map.empty]
  obtain cats new where
    loop: "seed_categories 1 categoriesData Map.empty empty_db
             = (Inr cats, empty_db\<lparr>categories := categories empty_db @ new\<rparr>)"
    and new: "map c_slug new = map ic_slug categoriesData"
    and d: "dom cats = set (map ic_slug categoriesData)"
    by auto
  let ?db1 = "empty_db\<lparr>categories := categories empty_db @ new\<rparr>"
  have "filter (\<lambda>s. cats s \<noteq> None) (map ic_slug categoriesData) = map ic_slug categoriesData"
    using d by (auto simp: filter_id_conv)
  moreover have "length (map ic_slug categoriesData) = 17"
    unfolding categoriesData_slugs by simp
  ultimately have run1: "seedAuthenticCatalog 1 empty_catalog empty_db = (Inr (17, 0, 0), ?db1)"
    using loop by (simp add: seedAuthenticCatalog_def empty_catalog_def)
  have slugs1: "map c_slug (categories ?db1) = map ic_slug categoriesData"
    using new by (simp add: empty_db_def)
  obtain d0 rest where cd: "categoriesData = d0 # rest"
    using categoriesData_first by blast
  have "ic_slug d0 \<in> set (map ic_slug categoriesData)" unfolding cd by simp
  then have "ic_slug d0 \<in> set (map c_slug (categories ?db1))" unfolding slugs1 .
  then have "seed_categories 2 categoriesData Map.empty ?db1 = (Inl UniqueViolation, ?db1)"
    unfolding cd by (rule seed_categories_taken)
  then have run2: "seedAuthenticCatalog 2 empty_catalog ?db1 = (Inl UniqueViolation, ?db1)"
    by (simp add: seedAuthenticCatalog_def)
  show ?thesis
    unfolding run1 snd_conv fst_conv run2 slugs1 using categoriesData_distinct by simp
qed

section \<open>Listing products\<close>

text \<open>
  C3. With the primary keys of categories and brands distinct, \<open>getProducts(filters)\<close>
  returns exactly the products whose \<open>isActive\<close> is true, each once and each with the
  category and the brand its foreign keys name (none when the key is null), newest first
  by creation time. An inactive product is never returned, and the filters argument has
  no effect: the result is that of a call without filters.
\<close>

theorem getProducts_active_newest_first:
  assumes cs: "distinct (map c_id (categories db))" and bs: "distinct (map b_id (brands db))"
  shows "mset (getProducts filters db)
           = mset (map (with_relations db) (filter (\<lambda>p. p_isActive p = Some True) (products db)))
         \<and> (\<forall>r\<in>set (getProducts filters db).
               p_isActive (pr_product r) = Some True
             \<and> (p_categoryId (pr_product r) = None \<longrightarrow> pr_category r = None)
             \<and> (p_brandId (pr_product r) = None \<longrightarrow> pr_brand r = None)
             \<and> (\<forall>c. pr_category r = Some c \<longrightarrow>
                     c \<in> set (categories db) \<and> p_categoryId (pr_product r) = Some (c_id c))
             \<and> (\<forall>b. pr_brand r = Some b \<longrightarrow>
                     b \<in> set (brands db) \<and> p_brandId (pr_product r) = Some (b_id b)))
         \<and> sorted_wrt (\<lambda>a b. newer_eq (p_createdAt (pr_product a)) (p_createdAt (pr_product b)))
              (getProducts filters db)
         \<and> getProducts filters db = getProducts None db"
proof -
  let ?act = "filter (\<lambda>p. p_isActive p = Some True) (products db)"
  let ?row = "\<lambda>p. ((p, find (\<lambda>c. p_categoryId p = Some (c_id c)) (categories db)),
                     find (\<lambda>b. p_brandId p = Some (b_id b)) (brands db))"
  let ?mk = "\<lambda>((p, c), b). \<lparr>pr_product = p, pr_category = c, pr_brand = b\<rparr>"
  let ?key = "\<lambda>((p, c), b). p_createdAt p"
  note rows = getProducts_rows [OF cs bs]
  have m: "mset (getProducts filters db) = mset (map (with_relations db) ?act)"
  proof -
    have "mset (getProducts filters db) = mset (map ?mk (map ?row ?act))"
      unfolding rows by (rule mset_map_orderBy_desc)
    also have "map ?mk (map ?row ?act) = map (with_relations db) ?act"
      by (simp add: with_relations_def)
    finally show ?thesis .
  qed
  have s: "set (getProducts filters db) = with_relations db ` set ?act"
    using m by (metis mset_eq_setD set_map)
  have each: "\<forall>r\<in>set (getProducts filters db).
               p_isActive (pr_product r) = Some True
             \<and> (p_categoryId (pr_product r) = None \<longrightarrow> pr_category r = None)
             \<and> (p_brandId (pr_product r) = None \<longrightarrow> pr_brand r = None)
             \<and> (\<forall>c. pr_category r = Some c \<longrightarrow>
                     c \<in> set (categories db) \<and> p_categoryId (pr_product r) = Some (c_id c))
             \<and> (\<forall>b. pr_brand r = Some b \<longrightarrow>
                     b \<in> set (brands db) \<and> p_brandId (pr_product r) = Some (b_id b))"
    unfolding s by (auto simp: with_relations_def find_False dest: find_SomeD)
  have "sorted_wrt (\<lambda>a b. newer_eq (?key a) (?key b)) (orderBy_desc ?key (map ?row ?act))"
    by (rule sorted_orderBy_desc)
  then have o: "sorted_wrt (\<lambda>a b. newer_eq (p_createdAt (pr_product a)) (p_createdAt (pr_product b)))
              (getProducts filters db)"
    unfolding rows sorted_wrt_map
    by (rule sorted_wrt_mono_rel [rotated]) auto
  have "getProducts filters db = getProducts None db"
    by (simp add: getProducts_def)
  with m each o show ?thesis by blast
qed

theorem getProducts_witness:
  "distinct (map c_id (categories shop)) \<and> distinct (map b_id (brands shop))
   \<and> mset (map (\<lambda>r. p_name (pr_product r)) (getProducts (Some some_filters) shop))
       = {#''Vitamin D3'', ''Aspirin''#}
   \<and> getProducts (Some some_filters) shop = getProducts None shop"
proof -
  have c: "distinct (map c_id (categories shop))" and b: "distinct (map b_id (brands shop))"
    by (simp_all add: shop_def)
  note t = getProducts_active_newest_first [OF c b, of "Some some_filters"]
  have act: "filter (\<lambda>p. p_isActive p = Some True) (products shop) = [vitamin_d3, aspirin]"
    by (simp add: shop_def vitamin_d3_def aspirin_def retired_def)
  from t have "mset (getProducts (Some some_filters) shop)
                 = mset (map (with_relations shop) [vitamin_d3, aspirin])"
    unfolding act by blast
  then have "mset (map (\<lambda>r. p_name (pr_product r)) (getProducts (Some some_filters) shop))
        = mset (map (\<lambda>r. p_name (pr_product r)) (map (with_relations shop) [vitamin_d3, aspirin]))"
    by (metis mset_map)
  also have "\<dots> = {#''Vitamin D3'', ''Aspirin''#}"
    by (simp add: with_relations_def vitamin_d3_def aspirin_def)
  finally have names: "mset (map (\<lambda>r. p_name (pr_product r)) (getProducts (Some some_filters) shop))
       = {#''Vitamin D3'', ''Aspirin''#}" .
  from t have "getProducts (Some some_filters) shop = getProducts None shop" by blast
  with c b names show ?thesis by blast
qed

section \<open>Reading orders\<close>

text \<open>
  C5. With the primary key of orders distinct, an order that exists and has no OrderItem
  is returned by \<open>getOrder(id)\<close> with an empty item list, not as not-found, and appears
  with an empty item list in \<open>getOrders\<close> of its user. Rows of the join without an
  item/product pair only drop out of the item list; the order is kept: \<open>getOrder\<close> is
  not-found exactly for an id that no order has, and every order of a user has an entry
  in \<open>getOrders(userId)\<close>.
\<close>

theorem orders_without_items_are_kept:
  assumes ord: "ord \<in> set (orders db)" and pk: "distinct (map o_id (orders db))"
      and empty: "\<forall>i\<in>set (orderItems db). oi_orderId i \<noteq> o_id ord"
  shows "getOrder (o_id ord) db = Some \<lparr> owi_order = ord, owi_orderItems = [] \<rparr>
         \<and> \<lparr> owi_order = ord, owi_orderItems = [] \<rparr> \<in> set (getOrders (o_userId ord) db)
         \<and> (\<forall>ident. (getOrder ident db = None) = (ident \<notin> set (map o_id (orders db))))
         \<and> (\<forall>userId. \<forall>r\<in>set (orders db). o_userId r = userId \<longrightarrow>
               o_id r \<in> set (map (\<lambda>e. o_id (owi_order e)) (getOrders userId db)))"
proof -
  let ?row0 = "((ord, None :: OrderItem option), None :: Product option)"
  let ?v0 = "\<lparr> owi_order = ord, owi_orderItems = [] \<rparr>"
  note bare = order_join_no_items [OF ord pk empty]
  have one: "getOrder (o_id ord) db = Some ?v0"
  proof -
    let ?rows = "filter (\<lambda>row. o_id (fst (fst row)) = o_id ord) (order_join db)"
    have all: "\<forall>row\<in>set ?rows. row = ?row0" using bare(2) by simp
    have "?row0 \<in> set ?rows" using bare(1) by simp
    then obtain r rs where rows: "?rows = r # rs" by (cases ?rows) auto
    with all have "r = ?row0" by (metis list.set_intros(1))
    moreover have "concat (map paired ?rows) = []" using all by (rule concat_paired_bare)
    ultimately show ?thesis
      unfolding getOrder_def Let_def using rows by (simp only: list.case) simp
  qed
  have two: "?v0 \<in> set (getOrders (o_userId ord) db)"
  proof -
    let ?rows = "orderBy_desc (\<lambda>row. o_createdAt (fst (fst row)))
                   (filter (\<lambda>row. o_userId (fst (fst row)) = o_userId ord) (order_join db))"
    have a: "\<forall>row\<in>set ?rows. o_id (fst (fst row)) = o_id ord \<longrightarrow> row = ?row0"
      using bare(2) by (simp add: set_orderBy_desc)
    have "?row0 \<in> set ?rows" using bare(1) by (simp add: set_orderBy_desc)
    then have b: "map_of [] (o_id ord) = Some ?v0
                  \<or> (map_of [] (o_id ord) = None \<and> ?row0 \<in> set ?rows)"
      by simp
    have "map_of (foldl group_step [] ?rows) (o_id ord) = Some ?v0"
      using a b by (rule group_no_items)
    then have "(o_id ord, ?v0) \<in> set (foldl group_step [] ?rows)" by (rule map_of_SomeD)
    then have "?v0 \<in> snd ` set (foldl group_step [] ?rows)" by force
    then show ?thesis by (simp add: getOrders_def Let_def)
  qed
  have three: "(getOrder ident db = None) = (ident \<notin> set (map o_id (orders db)))" for ident
  proof -
    have "(filter (\<lambda>row. o_id (fst (fst row)) = ident) (order_join db) = [])
          = (ident \<notin> (\<lambda>row. o_id (fst (fst row))) ` set (order_join db))"
      by (auto simp: filter_empty_conv)
    also have "(\<lambda>row. o_id (fst (fst row))) ` set (order_join db)
               = o_id ` ((\<lambda>row. fst (fst row)) ` set (order_join db))"
      by (simp add: image_image)
    finally have "(filter (\<lambda>row. o_id (fst (fst row)) = ident) (order_join db) = [])
          = (ident \<notin> set (map o_id (orders db)))"
      by (simp add: order_join_orders)
    then show ?thesis
      unfolding getOrder_def Let_def by (auto split: list.splits)
  qed
  have four: "o_id r \<in> set (map (\<lambda>e. o_id (owi_order e)) (getOrders userId db))"
    if r: "r \<in> set (orders db)" and u: "o_userId r = userId" for r userId
  proof -
    let ?rows = "orderBy_desc (\<lambda>row. o_createdAt (fst (fst row)))
                   (filter (\<lambda>row. o_userId (fst (fst row)) = userId) (order_join db))"
    from r obtain row where row: "row \<in> set (order_join db)" "fst (fst row) = r"
      using order_join_orders [of db] by (metis (mono_tags, lifting) imageE)
    with u have "row \<in> set ?rows" by (simp add: set_orderBy_desc)
    with row have "o_id r \<in> fst ` set (foldl group_step [] ?rows)"
      unfolding group_keys by force
    then obtain kv where kv: "kv \<in> set (foldl group_step [] ?rows)" "fst kv = o_id r" by force
    have "\<forall>kv\<in>set (foldl group_step [] ?rows). o_id (owi_order (snd kv)) = fst kv"
      by (rule group_keyed) simp
    with kv have "o_id (owi_order (snd kv)) = o_id r" by simp
    with kv(1) have "o_id r \<in> (\<lambda>e. o_id (owi_order e)) ` (snd ` set (foldl group_step [] ?rows))"
      by force
    then show ?thesis by (simp add: getOrders_def Let_def image_image)
  qed
  from one two three four show ?thesis by blast
qed

theorem orders_without_items_witness:
  "order1 \<in> set (orders shop_with_order) \<and> distinct (map o_id (orders shop_with_order))
   \<and> orderItems shop_with_order = []
   \<and> getOrder 1 shop_with_order = Some \<lparr> owi_order = order1, owi_orderItems = [] \<rparr>
   \<and> \<lparr> owi_order = order1, owi_orderItems = [] \<rparr> \<in> set (getOrders ''alice'' shop_with_order)"
proof -
  have m: "order1 \<in> set (orders shop_with_order)"
    and d: "distinct (map o_id (orders shop_with_order))"
    and e: "orderItems shop_with_order = []"
    by (simp_all add: shop_with_order_def shop_def)
  have n: "\<forall>i\<in>set (orderItems shop_with_order). oi_orderId i \<noteq> o_id order1"
    unfolding e by simp
  have k: "o_id order1 = 1" "o_userId order1 = ''alice''" by (simp_all add: order1_def)
  from orders_without_items_are_kept [OF m d n]
  have "getOrder 1 shop_with_order = Some \<lparr> owi_order = order1, owi_orderItems = [] \<rparr>"
    and "\<lparr> owi_order = order1, owi_orderItems = [] \<rparr> \<in> set (getOrders ''alice'' shop_with_order)"
    unfolding k by blast+
  with m d e show ?thesis by blast
qed

end
